theory Spec2Isabelle
  imports Complex_Main
begin

section \<open>Python exceptions as values\<close>

text \<open>
  A Python call either returns a value or raises. The result of every modelled function is
  a sum: \<open>Inl\<close> carries the exception that was raised (its class and its message),
  \<open>Inr\<close> the returned value.
\<close>

datatype error =
    ValueError string
  | RuntimeError string
  | IndexError string
  | KeyError string
  | ZeroDivisionError string

section \<open>cycle\_count\_zc.py: the cycle counter\<close>

text \<open>
  Samples and the threshold are float64 in the source. The counter only compares them
  (\<open>value > threshold\<close>, \<open>value < -threshold\<close>); on finite floats these comparisons
  and the negation of the threshold are exact, so finite samples are modelled as reals.
  The counters \<open>flips\<close> and \<open>state\<close> are Python integers.
\<close>

definition THRESHOLD :: real where
  "THRESHOLD = 10.0"

text \<open>One pass of the body of \<open>for value in x\<close>, on the pair \<open>(flips, state)\<close>.\<close>

fun loop_body :: "real \<Rightarrow> int \<times> int \<Rightarrow> real \<Rightarrow> int \<times> int" where
  "loop_body threshold (flips, state) v =
     (if state = 0 then
        (if v > threshold then (flips, 1)
         else if v < - threshold then (flips, - 1)
         else (flips, state))
      else if state = 1 then
        (if v < - threshold then (flips + 1, - 1) else (flips, state))
      else
        (if v > threshold then (flips + 1, 1) else (flips, state)))"

fun for_value :: "real \<Rightarrow> real list \<Rightarrow> int \<times> int \<Rightarrow> int \<times> int" where
  "for_value threshold [] fs = fs"
| "for_value threshold (v # x) fs = for_value threshold x (loop_body threshold fs v)"

definition count_cycles_zero_crossing :: "real list \<Rightarrow> real \<Rightarrow> error + int" where
  "count_cycles_zero_crossing signal threshold =
     (let (flips, state) = for_value threshold signal (0, 0);
          cycles = flips div 2
      in Inr cycles)"

subsection \<open>The state machine as the specification words it\<close>

datatype hysteresis_state = Neutral | Positive | Negative

fun spec_step :: "real \<Rightarrow> hysteresis_state \<times> nat \<Rightarrow> real \<Rightarrow> hysteresis_state \<times> nat" where
  "spec_step t (Neutral, flip_count) v =
     (if v > t then (Positive, flip_count)
      else if v < - t then (Negative, flip_count)
      else (Neutral, flip_count))"
| "spec_step t (Positive, flip_count) v =
     (if v < - t then (Negative, Suc flip_count) else (Positive, flip_count))"
| "spec_step t (Negative, flip_count) v =
     (if v > t then (Positive, Suc flip_count) else (Negative, flip_count))"

definition spec_count_cycles :: "real list \<Rightarrow> real \<Rightarrow> nat" where
  "spec_count_cycles samples t = snd (foldl (spec_step t) (Neutral, 0) samples) div 2"

text \<open>The integer the source uses for each state of the specification.\<close>

fun state_code :: "hysteresis_state \<Rightarrow> int" where
  "state_code Neutral = 0"
| "state_code Positive = 1"
| "state_code Negative = - 1"

section \<open>file\_io.py: strings and paths\<close>

text \<open>
  Python strings are modelled as lists of 8-bit characters, each read as the Unicode code
  point of the same number (the code points below 256). On these, \<open>str.isspace\<close> and the
  regular expression class \<open>\s\<close> hold of the twelve characters listed below; \<open>\w\<close>
  holds of the ASCII letters, digits and underscore, and of the letters and numeric
  characters from U+00AA on, which are all code points from U+00C0 except the
  multiplication and division signs; \<open>str.lower\<close> changes A to Z and the upper-case
  letters U+00C0 to U+00DE (not U+00D7) to the character 32 places on.
\<close>

definition isspace :: "char \<Rightarrow> bool" where
  "isspace c = (c \<in> set [CHR 0x09, CHR 0x0A, CHR 0x0B, CHR 0x0C, CHR 0x0D,
                           CHR 0x1C, CHR 0x1D, CHR 0x1E, CHR 0x1F, CHR 0x20,
                           CHR 0x85, CHR 0xA0])"

definition is_word :: "char \<Rightarrow> bool" where
  "is_word c =
     (c \<in> set (''abcdefghijklmnopqrstuvwxyz'' @ ''ABCDEFGHIJKLMNOPQRSTUVWXYZ''
                 @ ''0123456789'' @ ''_'')
      \<or> c \<in> set [CHR 0xAA, CHR 0xB2, CHR 0xB3, CHR 0xB5, CHR 0xB9, CHR 0xBA,
                    CHR 0xBC, CHR 0xBD, CHR 0xBE]
      \<or> (let n = (of_char c :: nat) in 0xC0 \<le> n \<and> n \<noteq> 0xD7 \<and> n \<noteq> 0xF7))"

definition lower_char :: "char \<Rightarrow> char" where
  "lower_char c =
     (case map_of
             (zip (''ABCDEFGHIJKLMNOPQRSTUVWXYZ''
                   @ [CHR 0xC0, CHR 0xC1, CHR 0xC2, CHR 0xC3, CHR 0xC4, CHR 0xC5, CHR 0xC6,
                      CHR 0xC7, CHR 0xC8, CHR 0xC9, CHR 0xCA, CHR 0xCB, CHR 0xCC, CHR 0xCD,
                      CHR 0xCE, CHR 0xCF, CHR 0xD0, CHR 0xD1, CHR 0xD2, CHR 0xD3, CHR 0xD4,
                      CHR 0xD5, CHR 0xD6, CHR 0xD8, CHR 0xD9, CHR 0xDA, CHR 0xDB, CHR 0xDC,
                      CHR 0xDD, CHR 0xDE])
                  (''abcdefghijklmnopqrstuvwxyz''
                   @ [CHR 0xE0, CHR 0xE1, CHR 0xE2, CHR 0xE3, CHR 0xE4, CHR 0xE5, CHR 0xE6,
                      CHR 0xE7, CHR 0xE8, CHR 0xE9, CHR 0xEA, CHR 0xEB, CHR 0xEC, CHR 0xED,
                      CHR 0xEE, CHR 0xEF, CHR 0xF0, CHR 0xF1, CHR 0xF2, CHR 0xF3, CHR 0xF4,
                      CHR 0xF5, CHR 0xF6, CHR 0xF8, CHR 0xF9, CHR 0xFA, CHR 0xFB, CHR 0xFC,
                      CHR 0xFD, CHR 0xFE])) c of
        Some l \<Rightarrow> l
      | None \<Rightarrow> c)"

definition lower :: "string \<Rightarrow> string" where
  "lower s = map lower_char s"

text \<open>\<open>s.strip()\<close>: whitespace removed at both ends.\<close>

definition strip :: "string \<Rightarrow> string" where
  "strip s = rev (dropWhile isspace (rev (dropWhile isspace s)))"

text \<open>\<open>s.split(",")\<close>: the fields between the separators, at least one field.\<close>

fun split :: "char \<Rightarrow> string \<Rightarrow> string list" where
  "split sep [] = [[]]"
| "split sep (c # cs) =
     (if c = sep then [] # split sep cs
      else (case split sep cs of
              [] \<Rightarrow> [[c]]
            | field # fields \<Rightarrow> (c # field) # fields))"

text \<open>\<open>re.sub(r'\s+', '_', s)\<close>: every maximal run of whitespace becomes one underscore.\<close>

function sub_spaces :: "string \<Rightarrow> string" where
  "sub_spaces [] = []"
| "sub_spaces (c # cs) =
     (if isspace c then CHR ''_'' # sub_spaces (dropWhile isspace cs) else c # sub_spaces cs)"
  by pat_completeness auto
termination
  by (relation "measure length") (auto simp: le_imp_less_Suc length_dropWhile_le)

text \<open>\<open>re.sub(r'[^\w\-./]', '', s)\<close>: every character outside the class is deleted.\<close>

definition sub_unwanted :: "string \<Rightarrow> string" where
  "sub_unwanted s = filter (\<lambda>c. is_word c \<or> c \<in> set ''-./'') s"

text \<open>The decimal digits of a non-negative integer, as an f-string prints it.\<close>

definition digit :: "nat \<Rightarrow> char" where
  "digit d = ''0123456789'' ! d"

fun str_nat :: "nat \<Rightarrow> string" where
  "str_nat n = (if n < 10 then [digit n] else str_nat (n div 10) @ [digit (n mod 10)])"

text \<open>
  \<open>p.rfind(c)\<close>: the index of the last occurrence of \<open>c\<close>, or -1.
\<close>

definition rfind :: "string \<Rightarrow> char \<Rightarrow> int" where
  "rfind p c =
     (if c \<in> set p then int (length p) - 1 - int (length (takeWhile (\<lambda>x. x \<noteq> c) (rev p)))
      else - 1)"

text \<open>
  \<open>os.path.splitext\<close> on Windows (the module imports \<open>win32com\<close>): the generic
  \<open>_splitext(p, '\\', '/', '.')\<close>. The extension starts at the last dot, provided the
  dot comes after the last separator and some character between that separator and the dot
  is not a dot (the loop that skips leading dots).
\<close>

definition splitext :: "string \<Rightarrow> string \<times> string" where
  "splitext p =
     (let sepIndex = max (rfind p (CHR 0x5C)) (rfind p (CHR ''/''));
          dotIndex = rfind p (CHR ''.'')
      in if dotIndex > sepIndex
            \<and> list_ex (\<lambda>c. c \<noteq> CHR ''.'')
                 (take (nat (dotIndex - (sepIndex + 1))) (drop (nat (sepIndex + 1)) p))
         then (take (nat dotIndex) p, drop (nat dotIndex) p)
         else (p, []))"

section \<open>float64 arithmetic\<close>

text \<open>
  The readers compute with float64. A finite float64 is a real \<open>m * 2 ^ e\<close> with an integer
  \<open>m\<close> of magnitude below \<open>2 ^ 53\<close> and \<open>-1074 \<le> e \<le> 971\<close>, and every operation
  returns the exact result rounded to the nearest such number, a tie going to the even
  \<open>m\<close> (IEEE 754, round to nearest even). \<open>round64\<close> is that rounding: the magnitude is
  scaled by powers of two until it lies in \<open>[2 ^ 52, 2 ^ 53)\<close>, or until the exponent
  reaches the least one (subnormal numbers) or the greatest one, and is then rounded to an
  integer. Results of magnitude \<open>2 ^ 1024\<close> and more (infinite in IEEE 754), NaN and the
  sign of zero are outside the model.
\<close>

function scale_down :: "real \<Rightarrow> int \<Rightarrow> real \<times> int" where
  "scale_down a e = (if 2 ^ 53 \<le> a \<and> e < 971 then scale_down (a / 2) (e + 1) else (a, e))"
  by pat_completeness auto
termination
  by (relation "measure (\<lambda>(a, e). nat (971 - e))") auto

function scale_up :: "real \<Rightarrow> int \<Rightarrow> real \<times> int" where
  "scale_up a e = (if a < 2 ^ 52 \<and> - 1074 < e then scale_up (a * 2) (e - 1) else (a, e))"
  by pat_completeness auto
termination
  by (relation "measure (\<lambda>(a, e). nat (e + 1074))") auto

definition round_half_even :: "real \<Rightarrow> int" where
  "round_half_even y =
     (let f = \<lfloor>y\<rfloor>;
          d = y - of_int f
      in if d < 1 / 2 then f
         else if 1 / 2 < d then f + 1
         else if even f then f else f + 1)"

definition round64 :: "real \<Rightarrow> real" where
  "round64 x =
     (if x = 0 then 0
      else
        let (a, e) = (if 2 ^ 53 \<le> \<bar>x\<bar> then scale_down \<bar>x\<bar> 0 else scale_up \<bar>x\<bar> 0);
            m = round_half_even a
        in sgn x * of_int m * 2 powi e)"

definition fadd :: "real \<Rightarrow> real \<Rightarrow> real" where
  "fadd a b = round64 (a + b)"

definition fsub :: "real \<Rightarrow> real \<Rightarrow> real" where
  "fsub a b = round64 (a - b)"

definition fmul :: "real \<Rightarrow> real \<Rightarrow> real" where
  "fmul a b = round64 (a * b)"

definition fdiv :: "real \<Rightarrow> real \<Rightarrow> real" where
  "fdiv a b = round64 (a / b)"

text \<open>
  The rounded result is a finite float64 when its magnitude is below \<open>2 ^ 1024\<close>; where
  it is not, IEEE 754 gives infinity, and a later \<open>0 * infinity\<close> is NaN.
\<close>

definition finite64 :: "real \<Rightarrow> bool" where
  "finite64 v = (\<bar>v\<bar> < 2 ^ 1024)"

text \<open>The float64 an integer operand is converted to.\<close>

definition float_of_int :: "int \<Rightarrow> real" where
  "float_of_int i = round64 (of_int i)"

section \<open>file\_io.py: data\<close>

text \<open>
  A pandas DataFrame of float64 columns: the columns in their order, each with its name.
\<close>

type_synonym frame = "(string \<times> real list) list"

definition columns :: "frame \<Rightarrow> string list" where
  "columns df = map fst df"

text \<open>\<open>df[cols]\<close> with a list of labels: for each label in turn, the columns that carry it.\<close>

definition getitem_list :: "frame \<Rightarrow> string list \<Rightarrow> frame" where
  "getitem_list df cols = concat (map (\<lambda>c. filter (\<lambda>col. fst col = c) df) cols)"

text \<open>\<open>df[name] = values\<close>: an existing column is overwritten, a new one is appended.\<close>

definition setitem :: "frame \<Rightarrow> string \<Rightarrow> real list \<Rightarrow> frame" where
  "setitem df name vals =
     (if name \<in> set (columns df)
      then map (\<lambda>col. if fst col = name then (name, vals) else col) df
      else df @ [(name, vals)])"

text \<open>
  \<open>np.linspace(start, stop, num)\<close> with the end point included, as numpy computes it:
  \<open>y = arange(0, num)\<close>; with \<open>div = num - 1\<close> (here \<open>divisor\<close>) and \<open>delta = stop - start\<close>, if
  \<open>div > 0\<close> then \<open>step = delta / div\<close> and \<open>y = y * step\<close> (or, when the step is
  zero, \<open>y = y / div\<close> and then \<open>y = y * delta\<close>), otherwise \<open>y = y * delta\<close>; then
  \<open>y += start\<close>, and the last entry is set to \<open>stop\<close> when \<open>num > 1\<close>.
\<close>

definition linspace :: "real \<Rightarrow> real \<Rightarrow> nat \<Rightarrow> real list" where
  "linspace start stop num =
     (let divisor = int num - 1;
          delta = fsub stop start;
          y = map (\<lambda>i. float_of_int (int i)) [0..<num];
          y = (if divisor > 0
               then
                 (let step = fdiv delta (float_of_int divisor)
                  in if step = 0
                     then map (\<lambda>v. fmul (fdiv v (float_of_int divisor)) delta) y
                     else map (\<lambda>v. fmul v step) y)
               else map (\<lambda>v. fmul v delta) y);
          y = map (\<lambda>v. fadd v start) y
      in if num > 1 then y[num - 1 := stop] else y)"

text \<open>
  The time vector as naive accumulation would build it, which the specification sets
  \<open>linspace\<close> against: each point is the previous one plus the step.
\<close>

fun repeated_addition :: "real \<Rightarrow> real \<Rightarrow> nat \<Rightarrow> real list" where
  "repeated_addition start step 0 = []"
| "repeated_addition start step (Suc n) = start # repeated_addition (fadd start step) step n"

text \<open>The five values a reader returns.\<close>

record dataset =
  df_temp :: frame
  base :: string
  duration :: "real list"
  nomes_sinais :: "string list"
  Fs :: real

text \<open>
  What \<open>ReadBuffer(i, 0, length, buffer)\<close> returns: a tuple \<open>(success, buffer, NOut)\<close> or
  something else. The driver fills the buffer of \<open>length\<close> float64 it is given, so the data
  is modelled by the function from the sample index to the sample, read at the indices
  below \<open>length\<close>.
\<close>

datatype read_result = Tuple bool "nat \<Rightarrow> real" int | NotTuple

text \<open>
  The COM object \<open>LynxFile.FileTS\<close> once \<open>OpenFile(filename)\<close> has been called: the
  value of that call and the properties and methods the readers use.
\<close>

record FileTS =
  OpenFile :: bool
  ErrorCodeStr :: string
  SnName :: "nat \<Rightarrow> string"
  SnUnit :: "nat \<Rightarrow> string"
  nChannels :: nat
  nSamples :: nat
  SampleFreq :: real
  ReadBuffer :: "nat \<Rightarrow> nat \<Rightarrow> nat \<Rightarrow> read_result"

text \<open>
  What the readers take from outside the program: the COM object for a file, the table
  \<open>pd.read_csv\<close> parses from a file (or its exception), the first line of a file, and
  \<open>os.path.basename\<close>.
\<close>

record env =
  Dispatch :: "string \<Rightarrow> FileTS"
  read_csv :: "string \<Rightarrow> error + frame"
  readline :: "string \<Rightarrow> error + string"
  basename :: "string \<Rightarrow> string"

section \<open>file\_io.py: the binary reader\<close>

text \<open>
  The channel name built in the loop body for channel \<open>i\<close>: name and unit are stripped,
  their whitespace runs turned into underscores, unwanted characters removed; the unit
  goes in brackets unless it is empty; the 1-based index and a colon come first.
\<close>

definition r_with_unit :: "(nat \<Rightarrow> string) \<Rightarrow> (nat \<Rightarrow> string) \<Rightarrow> nat \<Rightarrow> string" where
  "r_with_unit name unit i =
     (let r = sub_spaces (strip (name i));
          u = sub_spaces (strip (unit i));
          r = sub_unwanted r;
          u = sub_unwanted u;
          r_with_unit = (if u \<noteq> [] then r @ ''['' @ u @ '']'' else r)
      in str_nat (i + 1) @ '':'' @ r_with_unit)"

fun for_i :: "FileTS \<Rightarrow> nat list \<Rightarrow> real list list \<times> string list
    \<Rightarrow> error + (real list list \<times> string list)" where
  "for_i oFileTS [] (data_matrix, channel_names) = Inr (data_matrix, channel_names)"
| "for_i oFileTS (i # rest) (data_matrix, channel_names) =
     (let length = nSamples oFileTS in
      case ReadBuffer oFileTS i 0 length of
        NotTuple \<Rightarrow> Inl (RuntimeError ''ReadBuffer retornou valor inesperado.'')
      | Tuple success buffer_data n_out \<Rightarrow>
          if \<not> success
          then Inl (RuntimeError (''Erro ao ler canal '' @ str_nat i @ '': ''
                                   @ ErrorCodeStr oFileTS))
          else for_i oFileTS rest
                 (data_matrix @ [map buffer_data [0..<length]],
                  channel_names @ [r_with_unit (SnName oFileTS) (SnUnit oFileTS) i]))"

definition read_lynx_file :: "env \<Rightarrow> string \<Rightarrow> error + dataset" where
  "read_lynx_file world filename =
     (let oFileTS = Dispatch world filename;
          base = fst (splitext filename)
      in if \<not> OpenFile oFileTS
         then Inl (RuntimeError (''Erro ao abrir arquivo: '' @ ErrorCodeStr oFileTS))
         else
           let channels = nChannels oFileTS;
               length = nSamples oFileTS;
               Fs = SampleFreq oFileTS
           in case for_i oFileTS [0..<channels] ([], []) of
                Inl e \<Rightarrow> Inl e
              | Inr (data_matrix, channel_names) \<Rightarrow>
                  if data_matrix = []
                  then Inl (ValueError ''need at least one array to concatenate'')
                  else if Fs = 0
                  then Inl (ZeroDivisionError ''float division by zero'')
                  else
                    let df_temp = setitem (zip channel_names data_matrix) ''time''
                                    (linspace 0 (fdiv (float_of_int (int length - 1)) Fs) length);
                        duration = [fdiv (float_of_int (int length)) Fs];
                        nomes_sinais = columns df_temp
                    in Inr \<lparr>df_temp = df_temp, base = base, duration = duration,
                             nomes_sinais = nomes_sinais, Fs = Fs\<rparr>)"

definition read_lynx_headers :: "env \<Rightarrow> string \<Rightarrow> error + string list" where
  "read_lynx_headers world filename =
     (let oFileTS = Dispatch world filename;
          name = SnName oFileTS;
          unit = SnUnit oFileTS;
          channels = nChannels oFileTS
      in Inr (map (r_with_unit name unit) [0..<channels]))"

section \<open>file\_io.py: the text reader\<close>

definition read_text_file :: "env \<Rightarrow> string \<Rightarrow> error + dataset" where
  "read_text_file world filename =
     (let base = fst (splitext (basename world filename)) in
      case read_csv world filename of
        Inl e \<Rightarrow> Inl e
      | Inr df \<Rightarrow>
          if ''time'' \<notin> set (columns df)
          then Inl (ValueError ('''time' column not found in '' @ filename))
          else
            let df_temp = (if columns df ! 0 = ''time''
                           then getitem_list df (tl (columns df) @ [''time''])
                           else df)
            in (case map_of df_temp ''time'' of
                  None \<Rightarrow> Inl (KeyError ''time'')
                | Some time_data \<Rightarrow>
                    let length = length time_data in
                    if length = 0
                    then Inl (IndexError ''single positional indexer is out-of-bounds'')
                    else
                      let duration = [fsub (last time_data) (hd time_data)];
                          Fs = (if duration ! 0 \<noteq> 0
                                then fdiv (float_of_int (int length - 1)) (duration ! 0)
                                else 0);
                          nomes_sinais = columns df_temp
                      in Inr \<lparr>df_temp = df_temp, base = base, duration = duration,
                               nomes_sinais = nomes_sinais, Fs = Fs\<rparr>))"

definition read_text_headers :: "env \<Rightarrow> string \<Rightarrow> error + string list" where
  "read_text_headers world filename =
     (case readline world filename of
        Inl e \<Rightarrow> Inl e
      | Inr header_line \<Rightarrow>
          let nomes_sinais = map strip (split (CHR '','') (strip header_line));
              nomes_sinais = filter (\<lambda>s. lower s \<noteq> ''time'') nomes_sinais
          in Inr nomes_sinais)"

section \<open>file\_io.py: the dispatchers\<close>

definition read_file_data :: "env \<Rightarrow> string \<Rightarrow> error + dataset" where
  "read_file_data world filename =
     (let ext = lower (snd (splitext filename)) in
      if ext \<in> set [''.tem'', ''.ltx'', ''.ltd''] then read_lynx_file world filename
      else if ext \<in> set [''.csv'', ''.txt'', ''.asc''] then read_text_file world filename
      else Inl (ValueError (''Unsupported file type: '' @ ext)))"

definition read_channel_headers :: "env \<Rightarrow> string \<Rightarrow> error + string list" where
  "read_channel_headers world filename =
     (let ext = lower (snd (splitext filename)) in
      if ext \<in> set [''.tem'', ''.ltx'', ''.ltd''] then read_lynx_headers world filename
      else if ext \<in> set [''.csv'', ''.txt'', ''.asc''] then read_text_headers world filename
      else Inl (ValueError (''Unsupported file type: '' @ ext)))"

section \<open>The channel identifier as the specification words it\<close>




section \<open>Example inputs\<close>

text \<open>
  A file of one channel with five samples at 10 Hz, as the driver presents it, and the
  world in which every binary file is that file, every text file parses to a given table and
  starts with a given line.
\<close>

definition example_FileTS :: FileTS where
  "example_FileTS =
     \<lparr>OpenFile = True, ErrorCodeStr = [],
      SnName = (\<lambda>_. ''Force  X''), SnUnit = (\<lambda>_. ''k N''),
      nChannels = 1, nSamples = 5, SampleFreq = 10,
      ReadBuffer = (\<lambda>i offset n. Tuple True (\<lambda>k. 0) (int n))\<rparr>"

definition example_world :: "frame \<Rightarrow> string \<Rightarrow> env" where
  "example_world df header_line =
     \<lparr>Dispatch = (\<lambda>_. example_FileTS), read_csv = (\<lambda>_. Inr df),
      readline = (\<lambda>_. Inr header_line), basename = (\<lambda>p. p)\<rparr>"

text \<open>
  What the binary reader returns for that file. The entries of the time column are the
  float64 nearest to 0.1, 0.2 and 0.4 and, third, the float64 next above the one nearest to
  0.3 (it prints as 0.30000000000000004).
\<close>

definition example_time :: "real list" where
  "example_time = [0, 3602879701896397 / 2 ^ 55, 3602879701896397 / 2 ^ 54,
                   5404319552844596 / 2 ^ 54, 3602879701896397 / 2 ^ 53]"

definition example_dataset :: dataset where
  "example_dataset =
     \<lparr>df_temp = [(''1:Force_X[k_N]'', [0, 0, 0, 0, 0]), (''time'', example_time)],
      base = ''run'', duration = [1 / 2],
      nomes_sinais = [''1:Force_X[k_N]'', ''time''], Fs = 10\<rparr>"

text \<open>A table with the time column first, and what the text reader returns for it.\<close>

definition example_table :: frame where
  "example_table = [(''time'', [0, 1, 2]), (''A'', [5, - 12, 13]), (''B'', [0, 11, 0])]"

definition example_text_dataset :: dataset where
  "example_text_dataset =
     \<lparr>df_temp = [(''A'', [5, - 12, 13]), (''B'', [0, 11, 0]), (''time'', [0, 1, 2])],
      base = ''log'', duration = [2],
      nomes_sinais = [''A'', ''B'', ''time''], Fs = 1\<rparr>"

section \<open>Properties of the cycle counter\<close>

lemma loop_body_spec_step:
  "loop_body t (int n, state_code h) v =
     (int (snd (spec_step t (h, n) v)), state_code (fst (spec_step t (h, n) v)))"
  by (cases h) simp_all

lemma for_value_foldl:
  "for_value t s (int n, state_code h) =
     (int (snd (foldl (spec_step t) (h, n) s)), state_code (fst (foldl (spec_step t) (h, n) s)))"
proof (induction s arbitrary: n h)
  case Nil
  show ?case by simp
next
  case (Cons v s)
  obtain h' n' where step: "spec_step t (h, n) v = (h', n')"
    by (cases "spec_step t (h, n) v") auto
  have "for_value t (v # s) (int n, state_code h) = for_value t s (int n', state_code h')"
    using step by (simp only: for_value.simps loop_body_spec_step) simp
  also have "\<dots> = (int (snd (foldl (spec_step t) (h', n') s)),
                     state_code (fst (foldl (spec_step t) (h', n') s)))"
    by (rule Cons.IH)
  finally show ?case using step by simp
qed

lemma count_cycles_refines:
  "count_cycles_zero_crossing s t = Inr (int (spec_count_cycles s t))"
proof -
  have "for_value t s (0, 0) = for_value t s (int 0, state_code Neutral)" by simp
  then show ?thesis
    unfolding count_cycles_zero_crossing_def spec_count_cycles_def
    by (simp only: for_value_foldl Let_def split_conv) (simp add: zdiv_int)
qed

lemma for_value_quiet:
  "\<forall>v\<in>set s. \<bar>v\<bar> \<le> t \<Longrightarrow> for_value t s (0, 0) = (0, 0)"
  by (induction s) auto

lemma count_cycles_quiet:
  "\<forall>v\<in>set s. \<bar>v\<bar> \<le> t \<Longrightarrow> count_cycles_zero_crossing s t = Inr 0"
  by (simp add: count_cycles_zero_crossing_def for_value_quiet)

lemma count_cycles_five: "count_cycles_zero_crossing [0, 11, - 12, 13, - 14] 10 = Inr 1"
  by (simp add: count_cycles_zero_crossing_def)

lemma count_cycles_six: "count_cycles_zero_crossing [0, 11, - 12, 13, - 14, 15] 10 = Inr 2"
  by (simp add: count_cycles_zero_crossing_def)

lemma count_cycles_small: "count_cycles_zero_crossing [5, - 5, 5, - 5] 10 = Inr 0"
  by (simp add: count_cycles_zero_crossing_def)

lemma count_cycles_empty: "count_cycles_zero_crossing [] t = Inr 0"
  by (simp add: count_cycles_zero_crossing_def)

text \<open>
  Claim C1, as stated, at its second example: the claim gives 1 for
  \<open>[0, 11, -12, 13, -14, 15]\<close> with threshold 10. The sequence enters Positive at 11 and
  then flips four times (at -12, 13, -14 and 15), so the counter returns 2.
\<close>

theorem count_cycles_six_samples_counterexample:
  "count_cycles_zero_crossing [0, 11, - 12, 13, - 14, 15] 10 \<noteq> Inr 1
   \<and> for_value 10 [0, 11, - 12, 13, - 14, 15] (0, 0) = (4, 1)"
  by (simp add: count_cycles_zero_crossing_def)

text \<open>
  Claim C1, amended. The counter is the three-state hysteresis machine of the specification:
  it starts in Neutral with no flip counted, follows \<open>spec_step\<close> sample by sample and
  returns the number of flips floor-divided by two. With threshold 10 the sequence
  \<open>[0, 11, -12, 13, -14]\<close> (three flips) gives 1, \<open>[0, 11, -12, 13, -14, 15]\<close>
  (four flips) gives 2 and \<open>[5, -5, 5, -5]\<close> gives 0; for every positive threshold the
  empty sequence gives 0, and so does every sequence whose samples stay within the threshold
  in absolute value.
\<close>

theorem count_cycles_state_machine:
  "count_cycles_zero_crossing s t = Inr (int (spec_count_cycles s t))
   \<and> count_cycles_zero_crossing [0, 11, - 12, 13, - 14] 10 = Inr 1
   \<and> count_cycles_zero_crossing [0, 11, - 12, 13, - 14, 15] 10 = Inr 2
   \<and> count_cycles_zero_crossing [5, - 5, 5, - 5] 10 = Inr 0
   \<and> (0 < t \<longrightarrow> count_cycles_zero_crossing [] t = Inr 0
        \<and> ((\<forall>v\<in>set s. \<bar>v\<bar> \<le> t) \<longrightarrow> count_cycles_zero_crossing s t = Inr 0))"
  using count_cycles_refines count_cycles_five count_cycles_six count_cycles_small
    count_cycles_empty count_cycles_quiet
  by blast

theorem count_cycles_state_machine_witness:
  "(0::real) < 10 \<and> list_all (\<lambda>v. \<bar>v\<bar> \<le> (10::real)) [5, - 5, 5, - 5]
   \<and> count_cycles_zero_crossing [5, - 5, 5, - 5] 10 = Inr 0
   \<and> count_cycles_zero_crossing [] 10 = Inr 0
   \<and> spec_count_cycles [5, - 5, 5, - 5] 10 = 0"
  using count_cycles_state_machine [of "[5, - 5, 5, - 5]" 10]
  by (simp add: spec_count_cycles_def)

subsection \<open>The threshold is not validated\<close>

text \<open>
  Claim C6, as stated, at a zero and at a negative threshold: the claim has the counter fail
  with an InvalidThreshold error there. The source has no check of the threshold and no
  \<open>raise\<close>; it runs the loop and returns a count.
\<close>

theorem count_cycles_invalid_threshold_counterexample:
  "count_cycles_zero_crossing [1, - 1, 1] 0 = Inr 1
   \<and> count_cycles_zero_crossing [0, - 2, 0] (- 1) = Inr 1"
  by (simp add: count_cycles_zero_crossing_def)

text \<open>
  Claim C6, amended. The counter does not validate its threshold: called with a threshold
  that is zero or negative it does not fail, it runs the same state machine and returns a
  non-negative count.
\<close>

theorem count_cycles_no_threshold_check:
  "t \<le> 0 \<Longrightarrow>
     \<exists>n. 0 \<le> n \<and> count_cycles_zero_crossing s t = Inr n \<and> n = int (spec_count_cycles s t)"
  using count_cycles_refines [of s t] by auto

theorem count_cycles_no_threshold_check_witness:
  "(- 1::real) \<le> 0
   \<and> (\<exists>n. 0 \<le> n \<and> count_cycles_zero_crossing [0, - 2, 0] (- 1) = Inr n
            \<and> n = int (spec_count_cycles [0, - 2, 0] (- 1)))"
  using count_cycles_no_threshold_check [of "- 1" "[0, - 2, 0]"] by simp

subsection \<open>Negating every sample\<close>

lemma loop_body_negate:
  assumes "0 \<le> t" and "st \<in> {- 1, 0, 1}"
  shows "loop_body t (fl, - st) (- v)
           = (fst (loop_body t (fl, st) v), - snd (loop_body t (fl, st) v))
         \<and> snd (loop_body t (fl, st) v) \<in> {- 1, 0, 1}"
  using assms by auto

lemma for_value_negate:
  assumes "0 \<le> t"
  shows "st \<in> {- 1, 0, 1} \<Longrightarrow>
         fst (for_value t (map uminus s) (fl, - st)) = fst (for_value t s (fl, st))"
proof (induction s arbitrary: fl st)
  case Nil
  show ?case by simp
next
  case (Cons v s)
  obtain fl' st' where step: "loop_body t (fl, st) v = (fl', st')"
    by (cases "loop_body t (fl, st) v") auto
  from loop_body_negate [OF assms Cons.prems, of fl v] step
  have neg: "loop_body t (fl, - st) (- v) = (fl', - st')" and st': "st' \<in> {- 1, 0, 1}"
    by simp_all
  show ?case
    using Cons.IH [OF st', of fl'] by (simp only: list.map for_value.simps neg step)
qed

text \<open>
  Claim C10, as stated, at a negative threshold: the claim holds the count unchanged under
  negation of every sample for every threshold. With threshold -1 a sample can be both above
  the threshold and below its negation; the source tests \<open>value > threshold\<close> first, which
  breaks the mirror image: \<open>[0, 2, 0]\<close> counts 0 cycles and \<open>[0, -2, 0]\<close> counts 1.
\<close>

theorem count_cycles_negation_counterexample:
  "count_cycles_zero_crossing (map uminus [0, 2, 0]) (- 1) = Inr 1
   \<and> count_cycles_zero_crossing [0, 2, 0] (- 1) = Inr 0"
  by (simp add: count_cycles_zero_crossing_def)

text \<open>
  Claim C10, amended. For every threshold that is not negative and every finite sequence of
  samples, the count of the sequence with every sample negated equals the count of the
  sequence.
\<close>

theorem count_cycles_negation_symmetric:
  "0 \<le> t \<Longrightarrow>
     count_cycles_zero_crossing (map uminus s) t = count_cycles_zero_crossing s t"
  using for_value_negate [of t 0 s 0]
  by (simp add: count_cycles_zero_crossing_def split_beta)

theorem count_cycles_negation_symmetric_witness:
  "(0::real) \<le> 10
   \<and> count_cycles_zero_crossing (map uminus [0, 11, - 12, 13, - 14]) 10 = Inr 1
   \<and> count_cycles_zero_crossing [0, 11, - 12, 13, - 14] 10 = Inr 1"
  using count_cycles_negation_symmetric [of 10 "[0, 11, - 12, 13, - 14]"]
  by (simp add: count_cycles_zero_crossing_def)

section \<open>Properties of the channel names\<close>

lemmas string_eval =
  r_with_unit_def strip_def isspace_def sub_unwanted_def is_word_def digit_def



subsection \<open>The index prefix determines the index\<close>

lemma digit_inj: "d < 10 \<Longrightarrow> e < 10 \<Longrightarrow> digit d = digit e \<Longrightarrow> d = e"
proof -
  assume d: "d < 10" and e: "e < 10" and eq: "digit d = digit e"
  have dist: "distinct ''0123456789''" by simp
  have len: "length ''0123456789'' = 10" by simp
  from eq have "''0123456789'' ! d = ''0123456789'' ! e" by (simp only: digit_def)
  with dist d e len show "d = e" by (simp only: nth_eq_iff_index_eq)
qed

lemma digit_no_colon: "d < 10 \<Longrightarrow> digit d \<noteq> CHR '':''"
proof -
  assume d: "d < 10"
  have "CHR '':'' \<notin> set ''0123456789''" by simp
  moreover have "digit d \<in> set ''0123456789''"
    unfolding digit_def using d by (intro nth_mem) simp
  ultimately show ?thesis by metis
qed

lemma str_nat_not_Nil: "str_nat n \<noteq> []"
  by (subst str_nat.simps) simp

lemma str_nat_no_colon: "CHR '':'' \<notin> set (str_nat n)"
proof (induction n rule: str_nat.induct)
  case (1 n)
  show ?case
  proof (cases "n < 10")
    case True
    then show ?thesis using digit_no_colon [of n] by (subst str_nat.simps) auto
  next
    case False
    have "n mod 10 < 10" by simp
    then have "digit (n mod 10) \<noteq> CHR '':''" by (rule digit_no_colon)
    with False "1.IH" show ?thesis by (subst str_nat.simps) auto
  qed
qed

lemma str_nat_inj: "str_nat n = str_nat m \<Longrightarrow> n = m"
proof (induction n arbitrary: m rule: str_nat.induct)
  case (1 n)
  show ?case
  proof (cases "n < 10")
    case n: True
    show ?thesis
    proof (cases "m < 10")
      case True
      with n "1.prems" have "digit n = digit m"
        by (simp add: str_nat.simps [of n] str_nat.simps [of m])
      with n True show ?thesis by (rule digit_inj)
    next
      case False
      with n "1.prems" have "[digit n] = str_nat (m div 10) @ [digit (m mod 10)]"
        by (simp add: str_nat.simps [of n] str_nat.simps [of m])
      then have "str_nat (m div 10) = []" by simp
      with str_nat_not_Nil show ?thesis by blast
    qed
  next
    case n: False
    show ?thesis
    proof (cases "m < 10")
      case True
      with n "1.prems" have "str_nat (n div 10) @ [digit (n mod 10)] = [digit m]"
        by (simp add: str_nat.simps [of n] str_nat.simps [of m])
      then have "str_nat (n div 10) = []" by simp
      with str_nat_not_Nil show ?thesis by blast
    next
      case False
      with n "1.prems"
      have "str_nat (n div 10) @ [digit (n mod 10)] = str_nat (m div 10) @ [digit (m mod 10)]"
        by (simp add: str_nat.simps [of n] str_nat.simps [of m])
      then have hi: "str_nat (n div 10) = str_nat (m div 10)"
        and lo: "digit (n mod 10) = digit (m mod 10)" by simp_all
      from "1.IH" [OF n hi] have "n div 10 = m div 10" .
      moreover have "n mod 10 = m mod 10" using lo by (intro digit_inj) simp_all
      ultimately show ?thesis by (metis div_mult_mod_eq)
    qed
  qed
qed

lemma takeWhile_r_with_unit:
  "takeWhile (\<lambda>c. c \<noteq> CHR '':'') (r_with_unit name unit i) = str_nat (i + 1)"
proof -
  have "\<forall>c\<in>set (str_nat (i + 1)). c \<noteq> CHR '':''"
    using str_nat_no_colon [of "i + 1"] by blast
  then show ?thesis
    by (simp add: r_with_unit_def Let_def takeWhile_append2 del: str_nat.simps)
qed

lemma r_with_unit_inj:
  "r_with_unit name unit i = r_with_unit name' unit' j \<Longrightarrow> i = j"
proof -
  assume "r_with_unit name unit i = r_with_unit name' unit' j"
  then have "takeWhile (\<lambda>c. c \<noteq> CHR '':'') (r_with_unit name unit i)
           = takeWhile (\<lambda>c. c \<noteq> CHR '':'') (r_with_unit name' unit' j)" by simp
  then have "str_nat (i + 1) = str_nat (j + 1)" by (simp only: takeWhile_r_with_unit)
  then have "i + 1 = j + 1" by (rule str_nat_inj)
  then show "i = j" by simp
qed

lemma r_with_unit_distinct: "distinct (map (r_with_unit name unit) [0..<n])"
proof -
  have "inj_on (r_with_unit name unit) (set [0..<n])"
    by (rule inj_onI) (rule r_with_unit_inj)
  then show ?thesis by (simp add: distinct_map)
qed

text \<open>
  Claim C7. Whatever names and units the channels have, also when all of them are the same
  string, the channel names built for the indices 1 to n are pairwise distinct: the text
  before the first colon is the decimal index. This holds for the list the loop of the
  readers builds and so for the list \<open>read_lynx_headers\<close> returns.
\<close>

theorem channel_names_distinct:
  "distinct (map (r_with_unit name unit) [0..<n])
   \<and> (\<exists>names. read_lynx_headers world filename = Inr names \<and> distinct names)"
  using r_with_unit_distinct by (simp add: read_lynx_headers_def Let_def)

section \<open>Properties of paths\<close>

lemmas path_eval = splitext_def rfind_def lower_def lower_char_def

lemma lower_char_dot: "(lower_char x = CHR ''.'') = (x = CHR ''.'')"
  by (simp add: lower_char_def)

lemma lower_char_slash: "(lower_char x = CHR ''/'') = (x = CHR ''/'')"
  by (simp add: lower_char_def)

lemma lower_char_backslash: "(lower_char x = CHR 0x5C) = (x = CHR 0x5C)"
  by (simp add: lower_char_def)

lemma rfind_map:
  assumes "\<And>x. (f x = c) = (x = c)"
  shows "rfind (map f p) c = rfind p c"
proof -
  have "(\<lambda>x. x \<noteq> c) \<circ> f = (\<lambda>x. x \<noteq> c)" using assms by auto
  then have "length (takeWhile (\<lambda>x. x \<noteq> c) (rev (map f p)))
           = length (takeWhile (\<lambda>x. x \<noteq> c) (rev p))"
    by (simp add: rev_map takeWhile_map)
  moreover have "(c \<in> set (map f p)) = (c \<in> set p)"
  proof -
    have "(c \<in> set (map f p)) = (\<exists>x\<in>set p. f x = c)" by auto
    also have "\<dots> = (\<exists>x\<in>set p. x = c)" by (simp only: assms)
    also have "\<dots> = (c \<in> set p)" by auto
    finally show ?thesis .
  qed
  ultimately show ?thesis by (simp only: rfind_def length_map)
qed


lemma splitext_map:
  assumes dotf: "\<And>x. (f x = CHR ''.'') = (x = CHR ''.'')"
    and slashf: "\<And>x. (f x = CHR ''/'') = (x = CHR ''/'')"
    and backf: "\<And>x. (f x = CHR 0x5C) = (x = CHR 0x5C)"
  shows "splitext (map f p) = (map f (fst (splitext p)), map f (snd (splitext p)))"
proof -
  define sepIndex where "sepIndex = max (rfind p (CHR 0x5C)) (rfind p (CHR ''/''))"
  define dotIndex where "dotIndex = rfind p (CHR ''.'')"
  define middle where
    "middle = take (nat (dotIndex - (sepIndex + 1))) (drop (nat (sepIndex + 1)) p)"
  have r: "rfind (map f p) (CHR ''.'') = dotIndex"
    "max (rfind (map f p) (CHR 0x5C)) (rfind (map f p) (CHR ''/'')) = sepIndex"
    unfolding sepIndex_def dotIndex_def
    by (simp_all only: rfind_map [OF dotf] rfind_map [OF slashf] rfind_map [OF backf])
  have mid: "take (nat (dotIndex - (sepIndex + 1))) (drop (nat (sepIndex + 1)) (map f p))
               = map f middle"
    unfolding middle_def by (simp only: take_map drop_map)
  have ex: "list_ex (\<lambda>c. c \<noteq> CHR ''.'') (map f middle) = list_ex (\<lambda>c. c \<noteq> CHR ''.'') middle"
    by (simp add: list_ex_iff dotf)
  have lhs: "splitext (map f p) =
      (if dotIndex > sepIndex \<and> list_ex (\<lambda>c. c \<noteq> CHR ''.'') middle
       then (take (nat dotIndex) (map f p), drop (nat dotIndex) (map f p))
       else (map f p, []))"
    unfolding splitext_def r Let_def mid ex ..
  have rhs: "splitext p =
      (if dotIndex > sepIndex \<and> list_ex (\<lambda>c. c \<noteq> CHR ''.'') middle
       then (take (nat dotIndex) p, drop (nat dotIndex) p)
       else (p, []))"
    unfolding splitext_def Let_def sepIndex_def dotIndex_def middle_def ..
  show ?thesis
    unfolding lhs rhs by (simp add: take_map drop_map)
qed

lemma ext_lower: "lower (snd (splitext p)) = snd (splitext (lower p))"
  unfolding lower_def
  by (simp add: splitext_map [OF lower_char_dot lower_char_slash lower_char_backslash])

section \<open>Properties of float64 arithmetic\<close>

lemma scale_down_props:
  "2 ^ 52 \<le> a \<Longrightarrow> e \<le> 971 \<Longrightarrow> scale_down a e = (a', e') \<Longrightarrow>
     a' * 2 powi e' = a * 2 powi e \<and> 2 ^ 52 \<le> a' \<and> (a' < 2 ^ 53 \<or> e' = 971)
     \<and> e \<le> e' \<and> e' \<le> 971"
proof (induction a e rule: scale_down.induct)
  case (1 a e)
  from "1.prems"(3)
  have unf: "(if 2 ^ 53 \<le> a \<and> e < 971 then scale_down (a / 2) (e + 1) else (a, e)) = (a', e')"
    by (subst (asm) scale_down.simps)
  show ?case
  proof (cases "2 ^ 53 \<le> a \<and> e < 971")
    case True
    with unf have rec: "scale_down (a / 2) (e + 1) = (a', e')" by simp
    have "2 ^ 52 \<le> a / 2" using True by simp
    moreover have "e + 1 \<le> 971" using True by simp
    ultimately have "a' * 2 powi e' = a / 2 * 2 powi (e + 1) \<and> 2 ^ 52 \<le> a'
        \<and> (a' < 2 ^ 53 \<or> e' = 971) \<and> e + 1 \<le> e' \<and> e' \<le> 971"
      using "1.IH" [OF True _ _ rec] by blast
    moreover have "a / 2 * 2 powi (e + 1) = a * 2 powi e"
      by (simp add: power_int_add)
    ultimately show ?thesis by auto
  next
    case False
    from unf have "(a, e) = (a', e')" by (simp only: False if_False)
    then have "a' = a" and "e' = e" by simp_all
    with False "1.prems" show ?thesis by auto
  qed
qed

lemma scale_up_props:
  "0 < a \<Longrightarrow> a < 2 ^ 53 \<Longrightarrow> - 1074 \<le> e \<Longrightarrow> scale_up a e = (a', e') \<Longrightarrow>
     a' * 2 powi e' = a * 2 powi e \<and> 0 < a' \<and> a' < 2 ^ 53 \<and> (2 ^ 52 \<le> a' \<or> e' = - 1074)
     \<and> - 1074 \<le> e' \<and> e' \<le> e"
proof (induction a e rule: scale_up.induct)
  case (1 a e)
  from "1.prems"(4)
  have unf: "(if a < 2 ^ 52 \<and> - 1074 < e then scale_up (a * 2) (e - 1) else (a, e)) = (a', e')"
    by (subst (asm) scale_up.simps)
  show ?case
  proof (cases "a < 2 ^ 52 \<and> - 1074 < e")
    case True
    with unf have rec: "scale_up (a * 2) (e - 1) = (a', e')" by simp
    have "0 < a * 2" using "1.prems"(1) by simp
    moreover have "a * 2 < 2 ^ 53" using True by simp
    moreover have "- 1074 \<le> e - 1" using True by simp
    ultimately have "a' * 2 powi e' = a * 2 * 2 powi (e - 1) \<and> 0 < a' \<and> a' < 2 ^ 53
        \<and> (2 ^ 52 \<le> a' \<or> e' = - 1074) \<and> - 1074 \<le> e' \<and> e' \<le> e - 1"
      using "1.IH" [OF True _ _ _ rec] by blast
    moreover have "a * 2 * 2 powi (e - 1) = a * 2 powi e"
      by (simp add: power_int_diff)
    ultimately show ?thesis by auto
  next
    case False
    from unf have "(a, e) = (a', e')" by (simp only: False if_False)
    then have "a' = a" and "e' = e" by simp_all
    with False "1.prems" show ?thesis by auto
  qed
qed

lemma exponent_not_less:
  fixes a1 a2 :: real
  assumes eq: "a1 * 2 powi e1 = a2 * 2 powi e2" and "a1 < 2 ^ 53" and "2 ^ 52 \<le> a2"
  shows "\<not> e1 < e2"
proof
  assume less: "e1 < e2"
  have pos: "(0::real) < 2 powi e1" by (simp add: zero_less_power_int)
  have "a1 = a2 * 2 powi e2 / 2 powi e1" using eq pos by (simp add: field_simps)
  also have "\<dots> = a2 * 2 powi (e2 - e1)" by (simp add: power_int_diff)
  finally have a1: "a1 = a2 * 2 powi (e2 - e1)" .
  have "(2::real) powi 1 \<le> 2 powi (e2 - e1)"
    using less by (intro power_int_increasing) simp_all
  then have "(2::real) \<le> 2 powi (e2 - e1)" by simp
  moreover have "0 < a2" using assms(3) by (simp add: less_le_trans [of 0 "2 ^ 52"])
  ultimately have "a2 * 2 \<le> a2 * 2 powi (e2 - e1)" by simp
  with a1 assms(2,3) show False by simp
qed

lemma normal_form_unique:
  fixes a1 a2 :: real
  assumes eq: "a1 * 2 powi e1 = a2 * 2 powi e2"
    and n1: "e1 = 971 \<or> a1 < 2 ^ 53" "e1 = - 1074 \<or> 2 ^ 52 \<le> a1" "- 1074 \<le> e1" "e1 \<le> 971"
    and n2: "e2 = 971 \<or> a2 < 2 ^ 53" "e2 = - 1074 \<or> 2 ^ 52 \<le> a2" "- 1074 \<le> e2" "e2 \<le> 971"
  shows "a1 = a2 \<and> e1 = e2"
proof -
  have "\<not> e1 < e2"
  proof
    assume l: "e1 < e2"
    then have "a1 < 2 ^ 53" and "2 ^ 52 \<le> a2" using n1 n2 by auto
    with exponent_not_less [OF eq] l show False by blast
  qed
  moreover have "\<not> e2 < e1"
  proof
    assume l: "e2 < e1"
    then have "a2 < 2 ^ 53" and "2 ^ 52 \<le> a1" using n1 n2 by auto
    with exponent_not_less [OF eq [symmetric]] l show False by blast
  qed
  ultimately have e: "e1 = e2" by simp
  have "(2::real) powi e2 \<noteq> 0" by simp
  with eq show ?thesis unfolding e by simp
qed

lemma round64_normal_form:
  assumes x: "x \<noteq> 0" and eq: "\<bar>x\<bar> = a * 2 powi e"
    and n: "e = 971 \<or> a < 2 ^ 53" "e = - 1074 \<or> 2 ^ 52 \<le> a" "- 1074 \<le> e" "e \<le> 971"
  shows "round64 x = sgn x * of_int (round_half_even a) * 2 powi e"
proof -
  obtain a' e' where
    sc: "(if 2 ^ 53 \<le> \<bar>x\<bar> then scale_down \<bar>x\<bar> 0 else scale_up \<bar>x\<bar> 0) = (a', e')"
    by (cases "if 2 ^ 53 \<le> \<bar>x\<bar> then scale_down \<bar>x\<bar> 0 else scale_up \<bar>x\<bar> 0") auto
  have props: "a' * 2 powi e' = \<bar>x\<bar> \<and> (e' = 971 \<or> a' < 2 ^ 53)
      \<and> (e' = - 1074 \<or> 2 ^ 52 \<le> a') \<and> - 1074 \<le> e' \<and> e' \<le> 971"
  proof (cases "2 ^ 53 \<le> \<bar>x\<bar>")
    case True
    then have d: "scale_down \<bar>x\<bar> 0 = (a', e')" using sc by (simp only: if_True)
    have "2 ^ 52 \<le> \<bar>x\<bar>" using True by simp
    from scale_down_props [OF this _ d] show ?thesis by auto
  next
    case False
    then have u: "scale_up \<bar>x\<bar> 0 = (a', e')" using sc by (simp only: if_False)
    have "0 < \<bar>x\<bar>" using x by simp
    moreover have "\<bar>x\<bar> < 2 ^ 53" using False by simp
    ultimately show ?thesis using scale_up_props [OF _ _ _ u] by auto
  qed
  then have "a' * 2 powi e' = a * 2 powi e" using eq by simp
  from normal_form_unique [OF this] props n have "a' = a" and "e' = e" by blast+
  with sc x show ?thesis by (simp only: round64_def if_False Let_def split_conv)
qed

lemma round_half_even_of_int: "round_half_even (of_int k) = k"
  by (simp add: round_half_even_def)

lemma round_half_even_bounds:
  "\<lfloor>a\<rfloor> \<le> round_half_even a \<and> round_half_even a \<le> \<lfloor>a\<rfloor> + 1"
  by (simp add: round_half_even_def Let_def)

lemma normal_form_exists:
  fixes x :: real
  assumes "x \<noteq> 0"
  shows "\<exists>a e. \<bar>x\<bar> = a * 2 powi e \<and> 0 < a \<and> (e = 971 \<or> a < 2 ^ 53)
            \<and> (e = - 1074 \<or> 2 ^ 52 \<le> a) \<and> - 1074 \<le> e \<and> e \<le> 971"
proof -
  obtain a e where
    sc: "(if 2 ^ 53 \<le> \<bar>x\<bar> then scale_down \<bar>x\<bar> 0 else scale_up \<bar>x\<bar> 0) = (a, e)"
    by (cases "if 2 ^ 53 \<le> \<bar>x\<bar> then scale_down \<bar>x\<bar> 0 else scale_up \<bar>x\<bar> 0") auto
  have props: "a * 2 powi e = \<bar>x\<bar> \<and> (e = 971 \<or> a < 2 ^ 53)
      \<and> (e = - 1074 \<or> 2 ^ 52 \<le> a) \<and> - 1074 \<le> e \<and> e \<le> 971"
  proof (cases "2 ^ 53 \<le> \<bar>x\<bar>")
    case True
    then have d: "scale_down \<bar>x\<bar> 0 = (a, e)" using sc by (simp only: if_True)
    have "2 ^ 52 \<le> \<bar>x\<bar>" using True by simp
    from scale_down_props [OF this _ d] show ?thesis by auto
  next
    case False
    then have u: "scale_up \<bar>x\<bar> 0 = (a, e)" using sc by (simp only: if_False)
    have "0 < \<bar>x\<bar>" using assms by simp
    moreover have "\<bar>x\<bar> < 2 ^ 53" using False by simp
    ultimately show ?thesis using scale_up_props [OF _ _ _ u] by auto
  qed
  have "0 < a * 2 powi e" using props assms by simp
  moreover have "(0::real) < 2 powi e" by (simp add: zero_less_power_int)
  ultimately have "0 < a" by (simp add: zero_less_mult_iff)
  with props show ?thesis by metis
qed

lemma round64_idem: "round64 (round64 x) = round64 x"
proof (cases "x = 0")
  case True
  then show ?thesis by (simp add: round64_def)
next
  case False
  from normal_form_exists [OF False] obtain a e where
    eq: "\<bar>x\<bar> = a * 2 powi e" and pos: "0 < a"
    and n: "e = 971 \<or> a < 2 ^ 53" "e = - 1074 \<or> 2 ^ 52 \<le> a" "- 1074 \<le> e" "e \<le> 971"
    by blast
  define m where "m = round_half_even a"
  have y: "round64 x = sgn x * of_int m * 2 powi e"
    unfolding m_def by (rule round64_normal_form [OF False eq n])
  have m0: "0 \<le> m"
  proof -
    have "0 \<le> \<lfloor>a\<rfloor>" using pos by simp
    with round_half_even_bounds [of a] show ?thesis unfolding m_def by linarith
  qed
  show ?thesis
  proof (cases "m = 0")
    case True
    then have "round64 x = 0" using y by simp
    then show ?thesis by (simp add: round64_def)
  next
    case mpos: False
    with m0 have mp: "0 < m" by simp
    have p2: "(0::real) < 2 powi e" by simp
    have yne: "round64 x \<noteq> 0" using y False mp p2 by (simp add: sgn_zero_iff)
    have sg: "sgn (round64 x) = sgn x"
      unfolding y using mp p2 by (simp add: sgn_mult)
    have ab: "\<bar>round64 x\<bar> = of_int m * 2 powi e"
      unfolding y using mp p2 False by (simp add: abs_mult abs_sgn_eq)
    show ?thesis
    proof (cases "m = 2 ^ 53 \<and> e < 971")
      case True
      have ab': "\<bar>round64 x\<bar> = 2 ^ 52 * 2 powi (e + 1)"
        unfolding ab using True by (simp add: power_int_add)
      have "round64 (round64 x)
              = sgn (round64 x) * of_int (round_half_even (2 ^ 52)) * 2 powi (e + 1)"
        using True n by (intro round64_normal_form [OF yne ab']) simp_all
      also have "round_half_even (2 ^ 52) = 2 ^ 52"
        using round_half_even_of_int [of "2 ^ 52"] by simp
      also have "sgn (round64 x) * of_int (2 ^ 52) * 2 powi (e + 1)
                   = sgn x * of_int (2 ^ 52) * 2 powi (e + 1)"
        by (simp only: sg)
      also have "\<dots> = sgn x * of_int m * 2 powi e"
        using True by (simp add: power_int_add)
      also have "\<dots> = round64 x" by (simp only: y)
      finally show ?thesis .
    next
      case F: False
      have up: "e = 971 \<or> real_of_int m < 2 ^ 53"
      proof (cases "e = 971")
        case True then show ?thesis by simp
      next
        case False
        with n have "a < 2 ^ 53" by simp
        then have "\<lfloor>a\<rfloor> < 2 ^ 53" by (simp add: floor_less_iff)
        with round_half_even_bounds [of a] have "m \<le> 2 ^ 53" unfolding m_def by linarith
        with F False n have "m < 2 ^ 53" by simp
        then have "real_of_int m < real_of_int (2 ^ 53)" by (simp only: of_int_less_iff)
        then show ?thesis by simp
      qed
      have lo: "e = - 1074 \<or> 2 ^ 52 \<le> real_of_int m"
      proof (cases "e = - 1074")
        case True then show ?thesis by simp
      next
        case False
        with n have "2 ^ 52 \<le> a" by simp
        then have "2 ^ 52 \<le> \<lfloor>a\<rfloor>" by (simp add: le_floor_iff)
        with round_half_even_bounds [of a] have "2 ^ 52 \<le> m" unfolding m_def by linarith
        then have "real_of_int (2 ^ 52) \<le> real_of_int m" by (simp only: of_int_le_iff)
        then show ?thesis by simp
      qed
      have "round64 (round64 x)
              = sgn (round64 x) * of_int (round_half_even (of_int m)) * 2 powi e"
        by (rule round64_normal_form [OF yne ab up lo n(3,4)])
      also have "\<dots> = sgn x * of_int m * 2 powi e"
        by (simp only: sg round_half_even_of_int)
      also have "\<dots> = round64 x" by (simp only: y)
      finally show ?thesis .
    qed
  qed
qed

lemma round64_zero: "round64 0 = 0"
  by (simp add: round64_def)

lemma float_of_int_zero: "float_of_int 0 = 0"
  by (simp add: float_of_int_def round64_zero)

lemma fmul_zero_left: "fmul 0 b = 0"
  by (simp add: fmul_def round64_zero)

lemma fdiv_zero_left: "fdiv 0 b = 0"
  by (simp add: fdiv_def round64_zero)

lemma fadd_zero_right: "fadd (fmul a b) 0 = fmul a b"
  by (simp add: fadd_def fmul_def round64_idem)

lemma fsub_zero_right: "fsub (fdiv a b) 0 = fdiv a b"
  by (simp add: fsub_def fdiv_def round64_idem)

section \<open>Properties of the binary reader\<close>

lemma length_linspace: "length (linspace start stop num) = num"
  by (simp add: linspace_def Let_def)

lemma last_linspace: "1 < num \<Longrightarrow> last (linspace start stop num) = stop"
proof -
  assume n: "1 < num"
  let ?t = "linspace start stop num"
  have len: "length ?t = num" by (rule length_linspace)
  then have "?t \<noteq> []" using n by auto
  then have "last ?t = ?t ! (num - 1)" by (simp add: last_conv_nth len)
  also have "\<dots> = stop" using n by (simp add: linspace_def Let_def)
  finally show ?thesis .
qed

lemma linspace_nth:
  assumes "i + 1 < num"
  shows "linspace 0 (fdiv p q) num ! i =
     (if fdiv (fdiv p q) (float_of_int (int num - 1)) = 0
      then fmul (fdiv (float_of_int (int i)) (float_of_int (int num - 1))) (fdiv p q)
      else fmul (float_of_int (int i)) (fdiv (fdiv p q) (float_of_int (int num - 1))))"
proof -
  have i: "i < num" and ne: "i \<noteq> num - 1" and d: "0 < int num - 1" and n: "1 < num"
    using assms by auto
  show ?thesis
    unfolding linspace_def Let_def fsub_zero_right
    using i ne d n by (simp add: fadd_zero_right)
qed

lemma hd_linspace:
  assumes "0 < num"
  shows "hd (linspace 0 (fdiv p q) num) = 0"
proof -
  let ?t = "linspace 0 (fdiv p q) num"
  have "?t \<noteq> []" using assms length_linspace [of 0 "fdiv p q" num] by auto
  then have hd: "hd ?t = ?t ! 0" by (simp add: hd_conv_nth)
  show ?thesis
  proof (cases "1 < num")
    case True
    then have "0 + 1 < num" by simp
    from linspace_nth [OF this] show ?thesis
      unfolding hd by (simp add: float_of_int_zero fmul_zero_left fdiv_zero_left)
  next
    case False
    with assms have "num = 1" by simp
    then show ?thesis
      unfolding hd
      by (simp add: linspace_def Let_def float_of_int_zero fmul_zero_left fadd_def round64_zero)
  qed
qed

lemma upt_5: "[0..<5] = [0, 1, 2, 3, 4]"
  by (simp add: upt_rec)

lemma colon_in_r_with_unit: "CHR '':'' \<in> set (r_with_unit name unit i)"
  by (simp add: r_with_unit_def Let_def del: str_nat.simps)

lemma time_not_r_with_unit: "r_with_unit name unit i \<noteq> ''time''"
proof
  assume "r_with_unit name unit i = ''time''"
  then have "CHR '':'' \<in> set ''time''" using colon_in_r_with_unit [of name unit i] by simp
  then show False by simp
qed

lemma time_not_channel: "''time'' \<notin> set (map (r_with_unit name unit) js)"
proof
  assume "''time'' \<in> set (map (r_with_unit name unit) js)"
  then obtain i where "r_with_unit name unit i = ''time''" by auto
  then show False using time_not_r_with_unit by blast
qed

lemma for_i_Inr:
  "for_i h js (dm, cn) = Inr (dm', cn') \<Longrightarrow>
     cn' = cn @ map (r_with_unit (SnName h) (SnUnit h)) js
     \<and> length dm' = length dm + length js"
proof (induction js arbitrary: dm cn)
  case Nil
  then show ?case by simp
next
  case (Cons i js)
  from Cons.prems obtain buffer_data n_out where
    rb: "ReadBuffer h i 0 (nSamples h) = Tuple True buffer_data n_out"
    and rest: "for_i h js (dm @ [map buffer_data [0..<nSamples h]],
                 cn @ [r_with_unit (SnName h) (SnUnit h) i]) = Inr (dm', cn')"
    by (auto simp: Let_def split: read_result.splits if_splits)
  from Cons.IH [OF rest] show ?case by simp
qed

lemma read_lynx_file_Inr:
  assumes "read_lynx_file world filename = Inr ds"
  defines "h \<equiv> Dispatch world filename"
  shows "OpenFile h \<and> 0 < nChannels h \<and> SampleFreq h \<noteq> 0
    \<and> (\<exists>dm. length dm = nChannels h
          \<and> df_temp ds = zip (map (r_with_unit (SnName h) (SnUnit h)) [0..<nChannels h]) dm
                @ [(''time'', linspace 0 (fdiv (float_of_int (int (nSamples h) - 1)) (SampleFreq h)) (nSamples h))])
    \<and> duration ds = [fdiv (float_of_int (int (nSamples h))) (SampleFreq h)]
    \<and> Fs ds = SampleFreq h
    \<and> base ds = fst (splitext filename)
    \<and> nomes_sinais ds = columns (df_temp ds)"
proof -
  let ?cn = "map (r_with_unit (SnName h) (SnUnit h)) [0..<nChannels h]"
  let ?t = "linspace 0 (fdiv (float_of_int (int (nSamples h) - 1)) (SampleFreq h)) (nSamples h)"
  from assms(1) have op: "OpenFile h"
    by (auto simp: read_lynx_file_def Let_def h_def split: if_splits)
  from assms(1) op obtain dm cn where
    loop: "for_i h [0..<nChannels h] ([], []) = Inr (dm, cn)"
    by (auto simp: read_lynx_file_def Let_def h_def split: if_splits sum.splits)
  from for_i_Inr [OF loop] have cn: "cn = ?cn" and len: "length dm = nChannels h"
    by simp_all
  from assms(1) op loop have ne: "dm \<noteq> []" and fs: "SampleFreq h \<noteq> 0"
    and ds: "ds = \<lparr>df_temp = setitem (zip cn dm) ''time'' ?t, base = fst (splitext filename),
                   duration = [fdiv (float_of_int (int (nSamples h))) (SampleFreq h)],
                   nomes_sinais = columns (setitem (zip cn dm) ''time'' ?t),
                   Fs = SampleFreq h\<rparr>"
    by (auto simp: read_lynx_file_def Let_def h_def split: if_splits)
  have "''time'' \<notin> set cn" unfolding cn by (rule time_not_channel)
  then have "''time'' \<notin> set (columns (zip cn dm))"
    unfolding columns_def by (auto dest: set_zip_leftD)
  then have set: "setitem (zip cn dm) ''time'' ?t = zip cn dm @ [(''time'', ?t)]"
    by (simp add: setitem_def)
  from ne have "0 < length dm" by simp
  then have "0 < nChannels h" by (simp only: len)
  with op fs len ds set cn show ?thesis by auto
qed

lemma read_lynx_file_time:
  assumes "read_lynx_file world filename = Inr ds"
  defines "h \<equiv> Dispatch world filename"
  shows "map_of (df_temp ds) ''time''
           = Some (linspace 0 (fdiv (float_of_int (int (nSamples h) - 1)) (SampleFreq h)) (nSamples h))"
proof -
  let ?cn = "map (r_with_unit (SnName h) (SnUnit h)) [0..<nChannels h]"
  from read_lynx_file_Inr [OF assms(1)] obtain dm where
    df: "df_temp ds = zip ?cn dm
           @ [(''time'', linspace 0 (fdiv (float_of_int (int (nSamples h) - 1)) (SampleFreq h)) (nSamples h))]"
    unfolding h_def by blast
  have "''time'' \<notin> set ?cn" by (rule time_not_channel)
  then have "map_of (zip ?cn dm) ''time'' = None"
    by (auto simp: map_of_eq_None_iff dest: set_zip_leftD)
  then show ?thesis by (simp add: df map_add_def)
qed

lemmas float_eval =
  round64_def round_half_even_def fadd_def fsub_def fmul_def fdiv_def float_of_int_def

lemma example_read_lynx_file:
  "read_lynx_file (example_world df header_line) ''run.tem'' = Inr example_dataset"
  by (simp add: read_lynx_file_def example_world_def example_FileTS_def example_dataset_def example_time_def
      Let_def string_eval path_eval setitem_def columns_def linspace_def upt_5 float_eval)

lemma example_FileTS_metadata:
  "nSamples (Dispatch (example_world df header_line) filename) = 5"
  "SampleFreq (Dispatch (example_world df header_line) filename) = 10"
  by (simp_all add: example_world_def example_FileTS_def)

section \<open>Properties of the text reader\<close>

lemmas text_eval = read_text_file_def example_world_def columns_def getitem_list_def Let_def

lemma example_read_text_file:
  "read_text_file (example_world example_table header_line) ''log.csv'' = Inr example_text_dataset"
  by (simp add: text_eval example_table_def example_text_dataset_def path_eval float_eval)

lemma read_text_file_Inr:
  assumes "read_text_file world filename = Inr ds"
  shows "\<exists>t. map_of (df_temp ds) ''time'' = Some t \<and> t \<noteq> []
            \<and> duration ds = [fsub (last t) (hd t)]
            \<and> Fs ds = (if fsub (last t) (hd t) \<noteq> 0
                     then fdiv (float_of_int (int (length t) - 1)) (fsub (last t) (hd t)) else 0)
            \<and> nomes_sinais ds = columns (df_temp ds)"
proof -
  from assms obtain df where csv: "read_csv world filename = Inr df"
    by (cases "read_csv world filename") (simp_all add: read_text_file_def Let_def)
  from assms csv have tm: "''time'' \<in> set (columns df)"
    by (cases "''time'' \<in> set (columns df)") (simp_all add: read_text_file_def Let_def)
  define df' where "df' = (if columns df ! 0 = ''time''
                           then getitem_list df (tl (columns df) @ [''time''])
                           else df)"
  have eq: "read_text_file world filename =
     (case map_of df' ''time'' of
        None \<Rightarrow> Inl (KeyError ''time'')
      | Some time_data \<Rightarrow>
          if length time_data = 0
          then Inl (IndexError ''single positional indexer is out-of-bounds'')
          else Inr \<lparr>df_temp = df', base = fst (splitext (basename world filename)),
                    duration = [fsub (last time_data) (hd time_data)],
                    nomes_sinais = columns df',
                    Fs = (if fsub (last time_data) (hd time_data) \<noteq> 0
                          then fdiv (float_of_int (int (length time_data) - 1))
                                 (fsub (last time_data) (hd time_data))
                          else 0)\<rparr>)"
    using csv tm unfolding read_text_file_def df'_def
    by (simp add: Let_def split: option.split)
  from assms obtain t where t: "map_of df' ''time'' = Some t"
    unfolding eq by (cases "map_of df' ''time''") simp_all
  from assms have ne: "t \<noteq> []" unfolding eq t by (cases "t = []") simp_all
  from assms ne have ds: "ds = \<lparr>df_temp = df', base = fst (splitext (basename world filename)),
                    duration = [fsub (last t) (hd t)],
                    nomes_sinais = columns df',
                    Fs = (if fsub (last t) (hd t) \<noteq> 0
                          then fdiv (float_of_int (int (length t) - 1)) (fsub (last t) (hd t))
                          else 0)\<rparr>"
    unfolding eq t by simp
  show ?thesis using t ne by (simp add: ds)
qed

text \<open>
  Claim C2, at a header \<open>Time,A\<close>: the claim has such a file read, with \<open>Time\<close> as its
  time column. The reader tests \<open>"time" not in df_temp.columns\<close>, which is exact string
  membership, and raises the error of the missing time column; so does \<open>read_file_data\<close>.
  The header reader of the same module compares \<open>s.lower()\<close> with \<open>time\<close> and does
  recognise the column.
\<close>

theorem text_reader_time_case_sensitive:
  "read_text_file (example_world [(''Time'', [0, 1]), (''A'', [5, 6])] ''Time,A'') ''log.csv''
     = Inl (ValueError '''time' column not found in log.csv'')
   \<and> read_file_data (example_world [(''Time'', [0, 1]), (''A'', [5, 6])] ''Time,A'') ''log.csv''
     = Inl (ValueError '''time' column not found in log.csv'')
   \<and> read_channel_headers (example_world [(''Time'', [0, 1]), (''A'', [5, 6])] ''Time,A'')
        ''log.csv'' = Inr [''A'']"
  by (simp add: text_eval read_file_data_def read_channel_headers_def read_text_headers_def
      path_eval strip_def isspace_def)

text \<open>
  Claim C3, at a table whose time column is in the middle: the claim has the time column
  moved to the end. The reader reorders only when the first column is \<open>time\<close>; columns
  \<open>A, time, B\<close> come back in that order. With the time column first the columns do come
  back as \<open>A, B, time\<close>.
\<close>

theorem text_reader_time_in_middle:
  "read_text_file
     (example_world [(''A'', [5, 6]), (''time'', [0, 1]), (''B'', [7, 8])] ''A,time,B'') ''log.csv''
     = Inr \<lparr>df_temp = [(''A'', [5, 6]), (''time'', [0, 1]), (''B'', [7, 8])],
            base = ''log'', duration = [1],
            nomes_sinais = [''A'', ''time'', ''B''], Fs = 1\<rparr>
   \<and> read_text_file (example_world example_table ''time,A,B'') ''log.csv''
     = Inr example_text_dataset"
  by (simp add: example_read_text_file) (simp add: text_eval path_eval float_eval)

section \<open>Duration and time vector\<close>

lemma example_time_values:
  "example_time = [0, round64 0.1, round64 0.2, round64 0.3 + 2 powi (- 54), round64 0.4]"
  by (simp add: example_time_def round64_def round_half_even_def)

lemma linspace_five_at_ten:
  "linspace 0 (fdiv (float_of_int (int 5 - 1)) 10) 5 = example_time"
  by (simp add: linspace_def Let_def upt_5 float_eval example_time_def)

lemma linspace_not_repeated_addition:
  "linspace 0 (fdiv (float_of_int 8) 10) 9 ! 6 = 5404319552844596 / 2 ^ 53
   \<and> repeated_addition 0 (fdiv (fdiv (float_of_int 8) 10) (float_of_int 8)) 9 ! 6
       = 5404319552844595 / 2 ^ 53"
  by (simp add: linspace_def Let_def upt_rec float_eval eval_nat_numeral)

text \<open>
  Claim C4, as stated, at the binary file of five samples at 10 Hz: the claim has the duration
  equal to the last entry of the time vector minus the first. The binary reader returns the
  duration 5 / 10 = 0.5, while its time vector runs from 0 to the float64 nearest 0.4.
\<close>

theorem binary_duration_counterexample:
  "read_lynx_file (example_world [] []) ''run.tem'' = Inr example_dataset
   \<and> map_of (df_temp example_dataset) ''time'' = Some example_time
   \<and> duration example_dataset = [1 / 2]
   \<and> fsub (last example_time) (hd example_time) = round64 0.4
   \<and> duration example_dataset \<noteq> [fsub (last example_time) (hd example_time)]
   \<and> duration example_dataset \<noteq> [last example_time - hd example_time]"
  by (simp add: example_read_lynx_file)
     (simp add: example_dataset_def example_time_def float_eval)

text \<open>
  Claim C4, amended. For every dataset the text reader returns, the duration is the last
  entry of the time column minus the first (one float64 subtraction). For every dataset the
  binary reader returns, the duration is the number of samples divided by the sampling
  frequency, while its time vector ends at \<open>(sample_count - 1) / sampling_frequency\<close>
  and, that quotient being finite, starts at 0; for five samples at 10 Hz the duration is
  0.5 and the last entry minus the first is 0.4.
\<close>

theorem dataset_duration:
  "(read_text_file world filename = Inr ds \<longrightarrow>
      (\<exists>t. map_of (df_temp ds) ''time'' = Some t \<and> t \<noteq> []
           \<and> duration ds = [fsub (last t) (hd t)]))
   \<and> (read_lynx_file world filename = Inr ds \<longrightarrow>
      (\<exists>t. map_of (df_temp ds) ''time'' = Some t
          \<and> duration ds = [fdiv (float_of_int (int (nSamples (Dispatch world filename))))
                                 (SampleFreq (Dispatch world filename))]
          \<and> (t \<noteq> [] \<longrightarrow>
               last t = fdiv (float_of_int (int (nSamples (Dispatch world filename)) - 1))
                          (SampleFreq (Dispatch world filename))
               \<and> (finite64 (fdiv (float_of_int (int (nSamples (Dispatch world filename)) - 1))
                               (SampleFreq (Dispatch world filename)))
                    \<longrightarrow> hd t = 0))
          \<and> (nSamples (Dispatch world filename) = 5
               \<and> SampleFreq (Dispatch world filename) = 10 \<longrightarrow>
               duration ds = [1 / 2] \<and> fsub (last t) (hd t) = round64 0.4)))"
proof (intro conjI impI)
  assume "read_text_file world filename = Inr ds"
  from read_text_file_Inr [OF this]
  show "\<exists>t. map_of (df_temp ds) ''time'' = Some t \<and> t \<noteq> []
           \<and> duration ds = [fsub (last t) (hd t)]"
    by blast
next
  assume a: "read_lynx_file world filename = Inr ds"
  define h where "h = Dispatch world filename"
  define t where
    "t = linspace 0 (fdiv (float_of_int (int (nSamples h) - 1)) (SampleFreq h)) (nSamples h)"
  from read_lynx_file_Inr [OF a]
  have d: "duration ds = [fdiv (float_of_int (int (nSamples h))) (SampleFreq h)]"
    by (simp add: h_def)
  have 1: "map_of (df_temp ds) ''time'' = Some t"
    unfolding t_def h_def by (rule read_lynx_file_time [OF a])
  have 2: "t \<noteq> [] \<longrightarrow>
             last t = fdiv (float_of_int (int (nSamples h) - 1)) (SampleFreq h)
             \<and> (finite64 (fdiv (float_of_int (int (nSamples h) - 1)) (SampleFreq h))
                  \<longrightarrow> hd t = 0)"
  proof
    assume "t \<noteq> []"
    then have "length t \<noteq> 0" by simp
    then have pos: "0 < nSamples h" by (simp add: t_def length_linspace)
    have hd: "hd t = 0" unfolding t_def using pos by (rule hd_linspace)
    have "last t = fdiv (float_of_int (int (nSamples h) - 1)) (SampleFreq h)"
    proof (cases "1 < nSamples h")
      case True
      then show ?thesis unfolding t_def by (rule last_linspace)
    next
      case False
      with pos have one: "nSamples h = 1" by simp
      then have "fdiv (float_of_int (int (nSamples h) - 1)) (SampleFreq h) = 0"
        by (simp add: float_of_int_zero fdiv_zero_left)
      moreover have "length t = 1" using one by (simp add: t_def length_linspace)
      then have "t = [hd t]" by (cases t) simp_all
      ultimately show ?thesis using hd by (metis last.simps)
    qed
    with hd show "last t = fdiv (float_of_int (int (nSamples h) - 1)) (SampleFreq h)
        \<and> (finite64 (fdiv (float_of_int (int (nSamples h) - 1)) (SampleFreq h))
             \<longrightarrow> hd t = 0)" by simp
  qed
  have 3: "nSamples h = 5 \<and> SampleFreq h = 10 \<longrightarrow>
             duration ds = [1 / 2] \<and> fsub (last t) (hd t) = round64 0.4"
  proof (intro impI, elim conjE)
    assume n: "nSamples h = 5" and f: "SampleFreq h = 10"
    have "t = example_time" unfolding t_def n f by (rule linspace_five_at_ten)
    then have "fsub (last t) (hd t) = round64 0.4"
      by (simp add: example_time_def float_eval)
    moreover have "duration ds = [1 / 2]" unfolding d n f by (simp add: float_eval)
    ultimately show "duration ds = [1 / 2] \<and> fsub (last t) (hd t) = round64 0.4" by simp
  qed
  show "\<exists>t. map_of (df_temp ds) ''time'' = Some t
          \<and> duration ds = [fdiv (float_of_int (int (nSamples (Dispatch world filename))))
                                 (SampleFreq (Dispatch world filename))]
          \<and> (t \<noteq> [] \<longrightarrow>
               last t = fdiv (float_of_int (int (nSamples (Dispatch world filename)) - 1))
                          (SampleFreq (Dispatch world filename))
               \<and> (finite64 (fdiv (float_of_int (int (nSamples (Dispatch world filename)) - 1))
                               (SampleFreq (Dispatch world filename)))
                    \<longrightarrow> hd t = 0))
          \<and> (nSamples (Dispatch world filename) = 5
               \<and> SampleFreq (Dispatch world filename) = 10 \<longrightarrow>
               duration ds = [1 / 2] \<and> fsub (last t) (hd t) = round64 0.4)"
    unfolding h_def [symmetric] using 1 d 2 3 by (intro exI [of _ t] conjI)
qed

theorem dataset_duration_witness:
  "read_text_file (example_world example_table []) ''log.csv'' = Inr example_text_dataset
   \<and> map_of (df_temp example_text_dataset) ''time'' = Some [0, 1, 2]
   \<and> duration example_text_dataset = [fsub (last [0, 1, 2]) (hd [0, 1, 2])]
   \<and> read_lynx_file (example_world example_table []) ''run.tem'' = Inr example_dataset
   \<and> map_of (df_temp example_dataset) ''time'' = Some example_time
   \<and> finite64 (fdiv (float_of_int (int 5 - 1)) 10)
   \<and> hd example_time = 0
   \<and> last example_time = fdiv (float_of_int (int 5 - 1)) 10
   \<and> duration example_dataset = [1 / 2]
   \<and> fsub (last example_time) (hd example_time) = round64 0.4"
proof -
  let ?w = "example_world example_table []"
  have a: "read_text_file ?w ''log.csv'' = Inr example_text_dataset"
    by (rule example_read_text_file)
  have ta: "map_of (df_temp example_text_dataset) ''time'' = Some [0, 1, 2]"
    by (simp add: example_text_dataset_def)
  from dataset_duration [of ?w "''log.csv''" example_text_dataset] a ta
  have 1: "duration example_text_dataset = [fsub (last [0, 1, 2]) (hd [0, 1, 2])]"
    by auto
  have b: "read_lynx_file ?w ''run.tem'' = Inr example_dataset"
    by (rule example_read_lynx_file)
  have tb: "map_of (df_temp example_dataset) ''time'' = Some example_time"
    by (simp add: example_dataset_def)
  have ne: "example_time \<noteq> []" by (simp add: example_time_def)
  have m: "nSamples (Dispatch ?w ''run.tem'') = 5" "SampleFreq (Dispatch ?w ''run.tem'') = 10"
    by (simp_all add: example_FileTS_metadata)
  have fin: "finite64 (fdiv (float_of_int (int 5 - 1)) 10)"
    by (simp add: finite64_def float_eval)
  from dataset_duration [of ?w "''run.tem''" example_dataset] b tb ne m fin
  have 2: "hd example_time = 0 \<and> last example_time = fdiv (float_of_int (int 5 - 1)) 10
       \<and> duration example_dataset = [1 / 2]
       \<and> fsub (last example_time) (hd example_time) = round64 0.4"
    by auto
  from 2 have 3: "hd example_time = 0"
    and 4: "last example_time = fdiv (float_of_int (int 5 - 1)) 10"
    and 5: "duration example_dataset = [1 / 2]"
    and 6: "fsub (last example_time) (hd example_time) = round64 0.4"
    by blast+
  from a ta 1 b tb fin 3 4 5 6 show ?thesis by (intro conjI)
qed

text \<open>
  Claim C9, as stated, at five samples and 10 Hz: the claim has the time vector equal to
  \<open>[0, 0.1, 0.2, 0.3, 0.4]\<close>. The entry at index 3 is \<open>3 * 0.1\<close> rounded to float64,
  which is the float64 next above the one nearest to 0.3 (0.30000000000000004); the other
  entries are the float64 nearest to 0, 0.1, 0.2 and 0.4.
\<close>

theorem time_vector_example_counterexample:
  "read_lynx_file (example_world [] []) ''run.tem'' = Inr example_dataset
   \<and> map_of (df_temp example_dataset) ''time'' = Some example_time
   \<and> example_time \<noteq> map round64 [0, 0.1, 0.2, 0.3, 0.4]
   \<and> example_time \<noteq> [0, 0.1, 0.2, 0.3, 0.4]
   \<and> example_time ! 3 = round64 0.3 + 2 powi (- 54)"
  by (simp add: example_read_lynx_file)
     (simp add: example_dataset_def example_time_def round64_def round_half_even_def)

text \<open>
  Claim C9, amended. The time column of every dataset the binary reader returns is
  \<open>np.linspace(0, (sample_count - 1) / sampling_frequency, sample_count)\<close> in float64:
  one entry per sample, the last exactly \<open>(sample_count - 1) / sampling_frequency\<close>,
  the first 0 (that quotient being finite), and every entry before the last the index
  times the step \<open>((sample_count - 1) / sampling_frequency) / (sample_count - 1)\<close>,
  each operation rounded once (when the step is zero, the index divided by
  \<open>sample_count - 1\<close> times the end point). For five samples at 10 Hz the column is
  \<open>[0, 0.1, 0.2, 0.30000000000000004, 0.4]\<close>. Multiplying by the index is not repeated
  addition of the step: for nine samples at 10 Hz the two differ at index 6.
\<close>

theorem time_vector_linspace:
  assumes "read_lynx_file world filename = Inr ds"
  defines "n \<equiv> nSamples (Dispatch world filename)"
  defines "stop \<equiv> fdiv (float_of_int (int n - 1)) (SampleFreq (Dispatch world filename))"
  defines "step \<equiv> fdiv stop (float_of_int (int n - 1))"
  shows "(\<exists>t. map_of (df_temp ds) ''time'' = Some t
     \<and> length t = n
     \<and> (0 < n \<longrightarrow> last t = stop \<and> (finite64 stop \<longrightarrow> hd t = 0))
     \<and> (\<forall>i. i + 1 < n \<longrightarrow>
            t ! i = (if step = 0
                     then fmul (fdiv (float_of_int (int i)) (float_of_int (int n - 1))) stop
                     else fmul (float_of_int (int i)) step))
     \<and> (n = 5 \<and> SampleFreq (Dispatch world filename) = 10 \<longrightarrow>
            t = [0, round64 0.1, round64 0.2, round64 0.3 + 2 powi (- 54), round64 0.4]))
   \<and> linspace 0 (fdiv (float_of_int 8) 10) 9
        \<noteq> repeated_addition 0 (fdiv (fdiv (float_of_int 8) 10) (float_of_int 8)) 9"
proof -
  define h where "h = Dispatch world filename"
  define t where "t = linspace 0 stop n"
  have 1: "map_of (df_temp ds) ''time'' = Some t"
    unfolding t_def stop_def n_def by (rule read_lynx_file_time [OF assms(1)])
  have 2: "length t = n" by (simp add: t_def length_linspace)
  have 3: "0 < n \<longrightarrow> last t = stop \<and> (finite64 stop \<longrightarrow> hd t = 0)"
  proof
    assume pos: "0 < n"
    have hd: "hd t = 0" unfolding t_def stop_def using pos by (rule hd_linspace)
    have "last t = stop"
    proof (cases "1 < n")
      case True
      then show ?thesis unfolding t_def by (rule last_linspace)
    next
      case False
      with pos have one: "n = 1" by simp
      then have "stop = 0" by (simp add: stop_def float_of_int_zero fdiv_zero_left)
      moreover have "t = [hd t]" using 2 one by (cases t) simp_all
      ultimately show ?thesis using hd by (metis last.simps)
    qed
    with hd show "last t = stop \<and> (finite64 stop \<longrightarrow> hd t = 0)" by simp
  qed
  have 4: "\<forall>i. i + 1 < n \<longrightarrow>
            t ! i = (if step = 0
                     then fmul (fdiv (float_of_int (int i)) (float_of_int (int n - 1))) stop
                     else fmul (float_of_int (int i)) step)"
    unfolding t_def step_def stop_def by (intro allI impI linspace_nth)
  have 5: "n = 5 \<and> SampleFreq (Dispatch world filename) = 10 \<longrightarrow>
            t = [0, round64 0.1, round64 0.2, round64 0.3 + 2 powi (- 54), round64 0.4]"
  proof (intro impI, elim conjE)
    assume "n = 5" and "SampleFreq (Dispatch world filename) = 10"
    then have "t = linspace 0 (fdiv (float_of_int (int 5 - 1)) 10) 5"
      by (simp add: t_def stop_def)
    then show "t = [0, round64 0.1, round64 0.2, round64 0.3 + 2 powi (- 54), round64 0.4]"
      by (simp only: linspace_five_at_ten example_time_values)
  qed
  have 6: "linspace 0 (fdiv (float_of_int 8) 10) 9
        \<noteq> repeated_addition 0 (fdiv (fdiv (float_of_int 8) 10) (float_of_int 8)) 9"
  proof
    assume "linspace 0 (fdiv (float_of_int 8) 10) 9
        = repeated_addition 0 (fdiv (fdiv (float_of_int 8) 10) (float_of_int 8)) 9"
    then have "linspace 0 (fdiv (float_of_int 8) 10) 9 ! 6
        = repeated_addition 0 (fdiv (fdiv (float_of_int 8) 10) (float_of_int 8)) 9 ! 6"
      by simp
    then show False using linspace_not_repeated_addition by simp
  qed
  have ex: "\<exists>t. map_of (df_temp ds) ''time'' = Some t
     \<and> length t = n
     \<and> (0 < n \<longrightarrow> last t = stop \<and> (finite64 stop \<longrightarrow> hd t = 0))
     \<and> (\<forall>i. i + 1 < n \<longrightarrow>
            t ! i = (if step = 0
                     then fmul (fdiv (float_of_int (int i)) (float_of_int (int n - 1))) stop
                     else fmul (float_of_int (int i)) step))
     \<and> (n = 5 \<and> SampleFreq (Dispatch world filename) = 10 \<longrightarrow>
            t = [0, round64 0.1, round64 0.2, round64 0.3 + 2 powi (- 54), round64 0.4])"
    using 1 2 3 4 5 by (intro exI [of _ t] conjI)
  from ex 6 show ?thesis by (rule conjI)
qed


theorem time_vector_linspace_witness:
  "read_lynx_file (example_world [] []) ''run.tem'' = Inr example_dataset
   \<and> nSamples (Dispatch (example_world [] []) ''run.tem'') = 5
   \<and> SampleFreq (Dispatch (example_world [] []) ''run.tem'') = 10
   \<and> map_of (df_temp example_dataset) ''time''
        = Some [0, round64 0.1, round64 0.2, round64 0.3 + 2 powi (- 54), round64 0.4]
   \<and> finite64 (fdiv (float_of_int (int 5 - 1)) 10)
   \<and> hd example_time = 0
   \<and> last example_time = fdiv (float_of_int (int 5 - 1)) 10"
proof -
  have a: "read_lynx_file (example_world [] []) ''run.tem'' = Inr example_dataset"
    by (rule example_read_lynx_file)
  have b: "nSamples (Dispatch (example_world [] []) ''run.tem'') = 5"
    and c: "SampleFreq (Dispatch (example_world [] []) ''run.tem'') = 10"
    by (simp_all add: example_FileTS_metadata)
  have tm: "map_of (df_temp example_dataset) ''time'' = Some example_time"
    by (simp add: example_dataset_def)
  note inst = time_vector_linspace [OF a, unfolded b c tm]
  from inst have ex: "\<exists>t. Some example_time = Some t \<and> length t = 5
      \<and> (0 < (5::nat) \<longrightarrow> last t = fdiv (float_of_int (int 5 - 1)) 10
            \<and> (finite64 (fdiv (float_of_int (int 5 - 1)) 10) \<longrightarrow> hd t = 0))
      \<and> (\<forall>i. i + 1 < 5 \<longrightarrow>
            t ! i = (if fdiv (fdiv (float_of_int (int 5 - 1)) 10) (float_of_int (int 5 - 1)) = 0
                     then fmul (fdiv (float_of_int (int i)) (float_of_int (int 5 - 1)))
                            (fdiv (float_of_int (int 5 - 1)) 10)
                     else fmul (float_of_int (int i))
                            (fdiv (fdiv (float_of_int (int 5 - 1)) 10)
                               (float_of_int (int 5 - 1)))))
      \<and> ((5::nat) = 5 \<and> (10::real) = 10 \<longrightarrow>
            t = [0, round64 0.1, round64 0.2, round64 0.3 + 2 powi (- 54), round64 0.4])"
    by (rule conjunct1)
  moreover have fin: "finite64 (fdiv (float_of_int (int 5 - 1)) 10)"
    by (simp add: finite64_def float_eval)
  ultimately have v: "example_time
                 = [0, round64 0.1, round64 0.2, round64 0.3 + 2 powi (- 54), round64 0.4]"
    and e: "hd example_time = 0"
           "last example_time = fdiv (float_of_int (int 5 - 1)) 10"
    by auto
  from a b c tm v fin e show ?thesis by simp
qed

section \<open>Properties of the dispatchers\<close>

text \<open>
  Claim C8. Both dispatchers decide on the extension of the lower-cased path: \<open>.tem\<close>,
  \<open>.ltx\<close> and \<open>.ltd\<close> go to the binary readers, \<open>.csv\<close>, \<open>.txt\<close> and
  \<open>.asc\<close> to the text readers, and for any other extension both return the error whose
  message ends with that extension, whatever the world holds.
\<close>

theorem dispatch_by_extension:
  "(let ext = snd (splitext (lower filename)) in
      (ext \<in> {''.tem'', ''.ltx'', ''.ltd''} \<longrightarrow>
         read_file_data world filename = read_lynx_file world filename
         \<and> read_channel_headers world filename = read_lynx_headers world filename)
    \<and> (ext \<in> {''.csv'', ''.txt'', ''.asc''} \<longrightarrow>
         read_file_data world filename = read_text_file world filename
         \<and> read_channel_headers world filename = read_text_headers world filename)
    \<and> (ext \<notin> {''.tem'', ''.ltx'', ''.ltd'', ''.csv'', ''.txt'', ''.asc''} \<longrightarrow>
         read_file_data world filename = Inl (ValueError (''Unsupported file type: '' @ ext))
         \<and> read_channel_headers world filename
               = Inl (ValueError (''Unsupported file type: '' @ ext))))"
  by (simp add: read_file_data_def read_channel_headers_def ext_lower Let_def)

theorem dispatch_by_extension_witness:
  "snd (splitext (lower ''C:/data/RUN.Tem'')) = ''.tem''
   \<and> read_file_data (example_world [] []) ''C:/data/RUN.Tem''
       = read_lynx_file (example_world [] []) ''C:/data/RUN.Tem''
   \<and> read_channel_headers (example_world [] []) ''C:/data/RUN.Tem''
       = read_lynx_headers (example_world [] []) ''C:/data/RUN.Tem''
   \<and> snd (splitext (lower ''log.CSV'')) = ''.csv''
   \<and> read_file_data (example_world [] []) ''log.CSV''
       = read_text_file (example_world [] []) ''log.CSV''
   \<and> read_channel_headers (example_world [] []) ''log.CSV''
       = read_text_headers (example_world [] []) ''log.CSV''
   \<and> snd (splitext (lower ''notes.XYZ'')) = ''.xyz''
   \<and> read_file_data (example_world [] []) ''notes.XYZ''
       = Inl (ValueError ''Unsupported file type: .xyz'')
   \<and> read_channel_headers (example_world [] []) ''notes.XYZ''
       = Inl (ValueError ''Unsupported file type: .xyz'')"
proof -
  have a: "snd (splitext (lower ''C:/data/RUN.Tem'')) = ''.tem''"
    and b: "snd (splitext (lower ''log.CSV'')) = ''.csv''"
    and c: "snd (splitext (lower ''notes.XYZ'')) = ''.xyz''"
    by (simp_all add: path_eval)
  from dispatch_by_extension [of "''C:/data/RUN.Tem''" "example_world [] []"] a
  have 1: "read_file_data (example_world [] []) ''C:/data/RUN.Tem''
       = read_lynx_file (example_world [] []) ''C:/data/RUN.Tem''
   \<and> read_channel_headers (example_world [] []) ''C:/data/RUN.Tem''
       = read_lynx_headers (example_world [] []) ''C:/data/RUN.Tem''"
    by (simp add: Let_def)
  from dispatch_by_extension [of "''log.CSV''" "example_world [] []"] b
  have 2: "read_file_data (example_world [] []) ''log.CSV''
       = read_text_file (example_world [] []) ''log.CSV''
   \<and> read_channel_headers (example_world [] []) ''log.CSV''
       = read_text_headers (example_world [] []) ''log.CSV''"
    by (simp add: Let_def)
  from dispatch_by_extension [of "''notes.XYZ''" "example_world [] []"] c
  have 3: "read_file_data (example_world [] []) ''notes.XYZ''
       = Inl (ValueError ''Unsupported file type: .xyz'')
   \<and> read_channel_headers (example_world [] []) ''notes.XYZ''
       = Inl (ValueError ''Unsupported file type: .xyz'')"
    by (simp add: Let_def)
  from a b c 1 2 3 show ?thesis by (intro conjI) simp_all
qed

end
